theory Spec2Isabelle
  imports Complex_Main "HOL-Library.Word" "HOL-Library.Sublist"
begin

section \<open>Scene detection: the detector of \<open>src/ai_modules/scene_detection.py\<close>\<close>

text \<open>
  Python floats are idealised as \<^typ>\<open>real\<close>: timestamps, scores, thresholds and durations
  are exact numbers, and the comparisons of the source (\<open>>\<close>, \<open>>=\<close>, \<open><\<close>) are the
  comparisons of the reals. Exceptions are values of \<open>error\<close>.
\<close>

subsection \<open>Errors\<close>

datatype error =
    CouldNotOpen            \<comment> \<open>\<open>raise Exception("Error: Could not open video ...")\<close>\<close>
  | ZeroDivisionError       \<comment> \<open>Python's exception for \<open>x / 0\<close> and \<open>x / 0.0\<close>\<close>
  | NoSceneTimestamps       \<comment> \<open>\<open>raise Exception("No scene timestamps available. ...")\<close>\<close>
  | MakeDirsFailed          \<comment> \<open>\<open>os.makedirs\<close> raised\<close>
  | VideoLoadFailed         \<comment> \<open>\<open>VideoFileClip(video_path)\<close> raised\<close>
  | ReportWriteFailed       \<comment> \<open>\<open>open(info_file, 'w')\<close> or \<open>json.dump\<close> raised\<close>

subsection \<open>The OpenCV primitives used by the scorer\<close>

text \<open>
  \<open>cv2\<close> is an external library. The three calls of \<open>calculate_frame_difference\<close> are
  parameters of the model, each with the constant arguments of the source already applied:
  \<open>cv2.cvtColor(_, cv2.COLOR_BGR2GRAY)\<close>, \<open>cv2.calcHist([_], [0], None, [256], [0, 256])\<close>
  and \<open>cv2.compareHist(_, _, cv2.HISTCMP_CORREL)\<close>.
\<close>

record ('f, 'g, 'h) cv2 =
  cvtColor :: "'f \<Rightarrow> 'g"
  calcHist :: "'g \<Rightarrow> 'h"
  compareHist :: "'h \<Rightarrow> 'h \<Rightarrow> real"

subsection \<open>The detector object\<close>

type_synonym interval = "real \<times> real"

record SceneDetector =
  threshold :: real
  min_scene_length :: real
  scene_timestamps :: "interval list"

definition init :: "real \<Rightarrow> real \<Rightarrow> SceneDetector" where
  "init th msl = \<lparr>threshold = th, min_scene_length = msl, scene_timestamps = []\<rparr>"

definition calculate_frame_difference :: "('f, 'g, 'h) cv2 \<Rightarrow> 'f \<Rightarrow> 'f \<Rightarrow> real" where
  "calculate_frame_difference cv frame1 frame2 =
     (let gray1 = cvtColor cv frame1;
          gray2 = cvtColor cv frame2;
          hist1 = calcHist cv gray1;
          hist2 = calcHist cv gray2;
          correlation = compareHist cv hist1 hist2;
          difference = (1 - correlation) * 100
      in difference)"

subsection \<open>The video capture\<close>

text \<open>
  What \<open>cv2.VideoCapture(video_path)\<close> gives: whether it opened, the two properties read
  from the container (\<open>CAP_PROP_FPS\<close>, and \<open>CAP_PROP_FRAME_COUNT\<close> after \<open>int(...)\<close>), and
  the frames that successive \<open>cap.read()\<close> calls deliver before \<open>ret\<close> is false. The frame
  count is metadata: nothing in the source ties it to the number of frames delivered.
\<close>

record 'f video =
  isOpened :: bool
  fps :: real
  total_frames :: int
  frames :: "'f list"

subsection \<open>The scan loop of \<open>detect_scenes\<close>\<close>

text \<open>
  The loop variables, and the state \<open>world\<close> of the caller that the progress callback
  acts on. The callback receives the percentage only.
\<close>

record ('f, 'w) loop_state =
  scene_changes :: "real list"
  prev_frame :: "'f option"
  frame_count :: nat
  world :: "'w"

type_synonym 'w callback = "(real \<Rightarrow> 'w \<Rightarrow> 'w) option"

definition accept_boundary ::
  "('f, 'g, 'h) cv2 \<Rightarrow> SceneDetector \<Rightarrow> real \<Rightarrow> ('f, 'w) loop_state \<Rightarrow> 'f \<Rightarrow> real list" where
  "accept_boundary cv self fps' st frame =
     (case prev_frame st of
        None \<Rightarrow> scene_changes st
      | Some prev \<Rightarrow>
          (let difference = calculate_frame_difference cv prev frame in
           if difference > threshold self then
             (let timestamp = real (frame_count st) / fps' in
              if length (scene_changes st) = 1
                 \<or> timestamp - last (scene_changes st) \<ge> min_scene_length self
              then scene_changes st @ [timestamp]
              else scene_changes st)
           else scene_changes st))"

text \<open>One iteration of \<open>while True\<close> after a successful \<open>cap.read()\<close>.\<close>

definition process_frame ::
  "('f, 'g, 'h) cv2 \<Rightarrow> SceneDetector \<Rightarrow> real \<Rightarrow> int \<Rightarrow> 'w callback
     \<Rightarrow> ('f, 'w) loop_state \<Rightarrow> 'f \<Rightarrow> error option \<times> ('f, 'w) loop_state" where
  "process_frame cv self fps' nframes progress_callback st frame =
     (let st1 = st\<lparr>scene_changes := accept_boundary cv self fps' st frame,
                   prev_frame := Some frame,
                   frame_count := frame_count st + 1\<rparr>
      in case progress_callback of
           None \<Rightarrow> (None, st1)
         | Some cb \<Rightarrow>
             if frame_count st1 mod 30 = 0 then
               (if nframes = 0 then (Some ZeroDivisionError, st1)
                else (let progress = (real (frame_count st1) / real_of_int nframes) * 100
                      in (None, st1\<lparr>world := cb progress (world st1)\<rparr>)))
             else (None, st1))"

fun scan_frames ::
  "('f, 'g, 'h) cv2 \<Rightarrow> SceneDetector \<Rightarrow> real \<Rightarrow> int \<Rightarrow> 'w callback
     \<Rightarrow> 'f list \<Rightarrow> ('f, 'w) loop_state \<Rightarrow> error option \<times> ('f, 'w) loop_state" where
  "scan_frames cv self fps' nframes cb [] st = (None, st)"
| "scan_frames cv self fps' nframes cb (frame # rest) st =
     (case process_frame cv self fps' nframes cb st frame of
        (Some e, st') \<Rightarrow> (Some e, st')
      | (None, st') \<Rightarrow> scan_frames cv self fps' nframes cb rest st')"

definition initial_state :: "'w \<Rightarrow> ('f, 'w) loop_state" where
  "initial_state w = \<lparr>scene_changes = [0], prev_frame = None, frame_count = 0, world = w\<rparr>"

text \<open>\<open>[(scene_changes[i], scene_changes[i + 1]) for i in range(len(scene_changes) - 1)]\<close>\<close>

definition scene_pairs :: "real list \<Rightarrow> interval list" where
  "scene_pairs sc = map (\<lambda>i. (sc ! i, sc ! (i + 1))) [0..<length sc - 1]"

subsection \<open>\<open>detect_scenes\<close>\<close>

text \<open>
  The outcome of a call: the returned list or the exception, the detector afterwards,
  the number of frames that \<open>cap.read()\<close> delivered, and the caller's state.
\<close>

record 'w detection =
  returned :: "error + interval list"
  detector :: SceneDetector
  frames_read :: nat
  caller :: "'w"

definition detect_scenes ::
  "('f, 'g, 'h) cv2 \<Rightarrow> SceneDetector \<Rightarrow> 'f video \<Rightarrow> 'w callback \<Rightarrow> 'w \<Rightarrow> 'w detection" where
  "detect_scenes cv self v progress_callback w =
     (if \<not> isOpened v then
        \<lparr>returned = Inl CouldNotOpen, detector = self, frames_read = 0, caller = w\<rparr>
      else if fps v = 0 then
        \<lparr>returned = Inl ZeroDivisionError, detector = self, frames_read = 0, caller = w\<rparr>
      else
        (let duration = real_of_int (total_frames v) / fps v in
         case scan_frames cv self (fps v) (total_frames v) progress_callback (frames v)
                (initial_state w) of
           (Some e, st) \<Rightarrow>
             \<lparr>returned = Inl e, detector = self, frames_read = frame_count st,
              caller = world st\<rparr>
         | (None, st) \<Rightarrow>
             (let sc = scene_changes st @ [duration];
                  ts = scene_pairs sc
              in \<lparr>returned = Inr ts, detector = self\<lparr>scene_timestamps := ts\<rparr>,
                  frames_read = frame_count st, caller = world st\<rparr>)))"

subsection \<open>\<open>split_video_into_scenes\<close>\<close>

text \<open>
  The file system, the \<open>moviepy\<close> clip writer and the clock are external. \<open>io_env\<close> says
  which of their calls raise; \<open>effect\<close> records the calls that were made. The output
  path of a clip is kept as the values its f-string is built from (directory, source
  video, \<open>i + 1\<close>, start and end time), and the report file as its directory and source.
\<close>

record io_env =
  makedirs_ok :: bool
  load_ok :: bool
  write_ok :: "nat \<Rightarrow> real \<Rightarrow> real \<Rightarrow> bool"
  dump_ok :: bool
  now :: string

record clip_file =
  clip_dir :: string
  clip_source :: string
  clip_number :: nat
  clip_start :: real
  clip_end :: real

record scene_entry =
  scene_number :: nat
  start_time :: real
  end_time :: real
  duration :: real

record scene_info =
  source_video :: string
  total_scenes :: nat
  created_clips :: nat
  detection_threshold :: real
  min_scene_length_key :: real
  scenes :: "scene_entry list"
  timestamp :: string

datatype effect =
    MakeDirs string
  | LoadVideo string
  | ClipWritten clip_file
  | ClipFailed clip_file
  | CloseVideo
  | ReportWritten string string scene_info

text \<open>\<open>enumerate(scene_timestamps)\<close>\<close>

definition enumerate :: "'a list \<Rightarrow> (nat \<times> 'a) list" where
  "enumerate xs = zip [0..<length xs] xs"

text \<open>
  The \<open>for\<close> loop over the scenes: \<open>continue\<close> for a scene shorter than half a second,
  and the \<open>except Exception\<close> branch when extracting or writing the clip raises.
\<close>

fun write_scenes ::
  "io_env \<Rightarrow> string \<Rightarrow> string \<Rightarrow> (nat \<times> interval) list
     \<Rightarrow> clip_file list \<times> effect list \<Rightarrow> clip_file list \<times> effect list" where
  "write_scenes env video_path output_dir [] acc = acc"
| "write_scenes env video_path output_dir ((i, (start, end')) # rest) (clips, effs) =
     (let scene_duration = end' - start in
      if scene_duration < 0.5 then
        write_scenes env video_path output_dir rest (clips, effs)
      else
        (let output_path = \<lparr>clip_dir = output_dir, clip_source = video_path,
                             clip_number = i + 1, clip_start = start, clip_end = end'\<rparr>
         in if write_ok env (i + 1) start end' then
              write_scenes env video_path output_dir rest
                (clips @ [output_path], effs @ [ClipWritten output_path])
            else
              write_scenes env video_path output_dir rest
                (clips, effs @ [ClipFailed output_path])))"

definition make_scene_info ::
  "io_env \<Rightarrow> SceneDetector \<Rightarrow> string \<Rightarrow> interval list \<Rightarrow> clip_file list \<Rightarrow> scene_info" where
  "make_scene_info env self video_path sts clips =
     \<lparr>source_video = video_path,
      total_scenes = length sts,
      created_clips = length clips,
      detection_threshold = threshold self,
      min_scene_length_key = min_scene_length self,
      scenes = map (\<lambda>(i, (start, end')).
                 \<lparr>scene_number = i + 1, start_time = start, end_time = end',
                  duration = end' - start\<rparr>) (enumerate sts),
      timestamp = now env\<rparr>"

definition split_video_into_scenes ::
  "io_env \<Rightarrow> SceneDetector \<Rightarrow> string \<Rightarrow> string \<Rightarrow> interval list option
     \<Rightarrow> (error + clip_file list) \<times> effect list" where
  "split_video_into_scenes env self video_path output_dir scene_timestamps_arg =
     (let sts = (case scene_timestamps_arg of
                   None \<Rightarrow> scene_timestamps self
                 | Some given \<Rightarrow> given)
      in if sts = [] then (Inl NoSceneTimestamps, [])
         else if \<not> makedirs_ok env then (Inl MakeDirsFailed, [])
         else if \<not> load_ok env then (Inl VideoLoadFailed, [MakeDirs output_dir])
         else
           (let (clips, effs) =
                  write_scenes env video_path output_dir (enumerate sts)
                    ([], [MakeDirs output_dir, LoadVideo video_path]);
                info = make_scene_info env self video_path sts clips
            in if \<not> dump_ok env then (Inl ReportWriteFailed, effs @ [CloseVideo])
               else (Inr clips,
                     effs @ [CloseVideo, ReportWritten output_dir video_path info])))"

subsection \<open>A concrete instance of the OpenCV primitives\<close>

text \<open>
  Modelled from the spec: the three \<open>cv2\<close> functions, which are library code outside the
  repository. Section 4.1 of the specification: both frames are converted to
  single-channel luminance, a 256-bucket intensity histogram (range 0 to 255, one sample
  per pixel) is built for each, and the two histograms are compared by the standard
  histogram correlation, where 1 means an identical distribution. A frame is its list of
  8-bit (blue, green, red) pixels. The luminance weights are those of the OpenCV
  documentation; the examples below use black and white pixels only. The correlation is
  the Pearson coefficient of the two bucket vectors, and 1 when a variance vanishes.
\<close>

type_synonym pixel = "8 word \<times> 8 word \<times> 8 word"

definition luminance :: "pixel \<Rightarrow> 8 word" where
  "luminance p = (case p of (b, g, r) \<Rightarrow>
     of_nat ((299 * unat r + 587 * unat g + 114 * unat b + 500) div 1000))"

definition bgr2gray :: "pixel list \<Rightarrow> 8 word list" where
  "bgr2gray frame = map luminance frame"

definition hist256 :: "8 word list \<Rightarrow> real list" where
  "hist256 gray = map (\<lambda>v. real (count_list gray (of_nat v))) [0..<256]"

definition dbl_epsilon :: real where
  "dbl_epsilon = 1 / 2 ^ 52"

definition correl :: "real list \<Rightarrow> real list \<Rightarrow> real" where
  "correl h1 h2 =
     (let n = real (length h1);
          s1 = sum_list h1;
          s2 = sum_list h2;
          s11 = sum_list (map (\<lambda>a. a * a) h1);
          s22 = sum_list (map (\<lambda>b. b * b) h2);
          s12 = sum_list (map (\<lambda>(a, b). a * b) (zip h1 h2));
          num = s12 - s1 * s2 / n;
          denom2 = (s11 - s1 * s1 / n) * (s22 - s2 * s2 / n)
      in if \<bar>denom2\<bar> > dbl_epsilon then num / sqrt denom2 else 1)"

definition opencv :: "(pixel list, 8 word list, real list) cv2" where
  "opencv = \<lparr>cvtColor = bgr2gray, calcHist = hist256, compareHist = correl\<rparr>"

text \<open>One-pixel frames, for the examples.\<close>

definition black :: "pixel list" where
  "black = [(0, 0, 0)]"

definition white :: "pixel list" where
  "white = [(255, 255, 255)]"

text \<open>An environment in which no external call raises.\<close>

definition all_ok :: io_env where
  "all_ok = \<lparr>makedirs_ok = True, load_ok = True, write_ok = (\<lambda>i s e. True),
             dump_ok = True, now = ''2024-01-01T00:00:00''\<rparr>"

subsection \<open>A measure for comparing two scans\<close>

text \<open>
  Used when two scans of the same frames are compared: 0 when the first scan is at least
  as ready to accept the next candidate as the second one (it still holds only the
  initial entry, or its last boundary is not later), 1 otherwise.
\<close>

definition lag :: "real list \<Rightarrow> real list \<Rightarrow> nat" where
  "lag sa sb = (if length sa = 1 \<or> (length sb \<noteq> 1 \<and> last sa \<le> last sb) then 0 else 1)"

section \<open>The scorer\<close>

lemma luminance_white: "bgr2gray white = [255]"
  by (simp add: bgr2gray_def white_def luminance_def)

lemma luminance_black: "bgr2gray black = [0]"
  by (simp add: bgr2gray_def black_def luminance_def)

lemma length_hist256: "length (hist256 g) = 256"
  by (simp add: hist256_def)

lemma squared_deviations:
  "sum_list (map (\<lambda>a. (a - m) * (a - m)) h)
     = sum_list (map (\<lambda>a. a * a) h) - 2 * m * sum_list h + real (length h) * m * m"
  by (induction h) (simp_all add: algebra_simps)

lemma variance_nonneg:
  "0 \<le> sum_list (map (\<lambda>a. a * a) h) - sum_list h * sum_list h / real (length h)"
proof (cases "h = []")
  case True
  then show ?thesis by simp
next
  case False
  define n where "n = real (length h)"
  define m where "m = sum_list h / n"
  have n: "n > 0" using False by (simp add: n_def)
  have "0 \<le> sum_list (map (\<lambda>a. (a - m) * (a - m)) h)"
    by (rule sum_list_nonneg) auto
  also have "\<dots> = sum_list (map (\<lambda>a. a * a) h) - 2 * m * sum_list h + n * m * m"
    by (simp add: squared_deviations n_def)
  also have "\<dots> = sum_list (map (\<lambda>a. a * a) h) - sum_list h * sum_list h / n"
    using n by (simp add: m_def field_simps)
  finally show ?thesis by (simp add: n_def)
qed

lemma products_with_itself:
  "map (\<lambda>(a, b). a * b) (zip h h) = map (\<lambda>a. a * a) (h::real list)"
  by (induction h) simp_all

text \<open>A histogram correlates perfectly with itself, also when its variance is zero.\<close>

lemma correl_self: "correl h h = 1"
proof -
  define v where
    "v = sum_list (map (\<lambda>a. a * a) h) - sum_list h * sum_list h / real (length h)"
  have v: "0 \<le> v" unfolding v_def by (rule variance_nonneg)
  have "correl h h = (if \<bar>v * v\<bar> > dbl_epsilon then v / sqrt (v * v) else 1)"
    by (simp add: correl_def Let_def products_with_itself v_def)
  also have "\<dots> = 1"
  proof (cases "\<bar>v * v\<bar> > dbl_epsilon")
    case True
    then have "v \<noteq> 0" by (auto simp: dbl_epsilon_def)
    with v True show ?thesis by simp
  next
    case False
    then show ?thesis by simp
  qed
  finally show ?thesis .
qed

lemma difference_same_histogram:
  "hist256 (bgr2gray f1) = hist256 (bgr2gray f2) \<Longrightarrow>
     calculate_frame_difference opencv f1 f2 = 0"
  by (simp add: calculate_frame_difference_def opencv_def correl_self)



section \<open>Splitting into clips\<close>

text \<open>
  C10. When \<open>split_video_into_scenes\<close> is called with no timestamps (\<open>None\<close> while the
  detector's stored list is still empty, or an empty list), it raises before the output
  directory is created and before any clip is written: no external call has been made.
\<close>

theorem split_without_timestamps_raises:
  "scene_timestamps_arg = Some [] \<or>
     (scene_timestamps_arg = None \<and> scene_timestamps self = []) \<Longrightarrow>
   split_video_into_scenes env self video_path output_dir scene_timestamps_arg
     = (Inl NoSceneTimestamps, [])"
  by (auto simp: split_video_into_scenes_def)

theorem split_without_timestamps_raises_witness:
  "scene_timestamps (init 30 2) = []
   \<and> split_video_into_scenes all_ok (init 30 2) ''input.mp4'' ''out'' None
       = (Inl NoSceneTimestamps, [])
   \<and> split_video_into_scenes all_ok (init 30 2) ''input.mp4'' ''out'' (Some [])
       = (Inl NoSceneTimestamps, [])"
  using split_without_timestamps_raises [of None "init 30 2" all_ok "''input.mp4''" "''out''"]
    split_without_timestamps_raises [of "Some []" "init 30 2" all_ok "''input.mp4''" "''out''"]
  by (simp add: init_def)

section \<open>The scan loop\<close>

lemma process_frame_fields:
  "process_frame cv self f n cb st fr = (e, st') \<Longrightarrow>
     scene_changes st' = accept_boundary cv self f st fr \<and> prev_frame st' = Some fr
     \<and> frame_count st' = frame_count st + 1"
  by (auto simp: process_frame_def Let_def split: option.splits if_splits)

lemma accept_boundary_cong:
  "scene_changes a = scene_changes b \<Longrightarrow> prev_frame a = prev_frame b \<Longrightarrow>
   frame_count a = frame_count b \<Longrightarrow>
   accept_boundary cv self f a fr = accept_boundary cv self f b fr"
  by (simp add: accept_boundary_def Let_def split: option.splits)

lemma process_frame_ok:
  "cb = None \<or> n \<noteq> 0 \<Longrightarrow> fst (process_frame cv self f n cb st fr) = None"
  by (auto simp: process_frame_def Let_def split: option.splits)

lemma scan_frames_ok:
  "cb = None \<or> n \<noteq> 0 \<Longrightarrow> fst (scan_frames cv self f n cb fs st) = None"
proof (induction fs arbitrary: st)
  case Nil
  show ?case by simp
next
  case (Cons fr fs)
  obtain e st' where p: "process_frame cv self f n cb st fr = (e, st')"
    by (cases "process_frame cv self f n cb st fr")
  with process_frame_ok [OF Cons.prems, of cv self f st fr] have "e = None" by simp
  with p Cons show ?case by simp
qed


lemma scan_frames_fields:
  "scene_changes a = scene_changes b \<Longrightarrow> prev_frame a = prev_frame b \<Longrightarrow>
   frame_count a = frame_count b \<Longrightarrow>
   scan_frames cv self f n cb fs a = (None, a') \<Longrightarrow>
   scan_frames cv self f n' cb' fs b = (None, b') \<Longrightarrow>
   scene_changes a' = scene_changes b' \<and> prev_frame a' = prev_frame b'
   \<and> frame_count a' = frame_count b'"
proof (induction fs arbitrary: a b)
  case Nil
  then show ?case by simp
next
  case (Cons fr fs)
  obtain ea a1 where pa: "process_frame cv self f n cb a fr = (ea, a1)"
    by (cases "process_frame cv self f n cb a fr")
  obtain eb b1 where pb: "process_frame cv self f n' cb' b fr = (eb, b1)"
    by (cases "process_frame cv self f n' cb' b fr")
  from Cons.prems(4) pa have ea: "ea = None" and ra: "scan_frames cv self f n cb fs a1 = (None, a')"
    by (auto split: option.splits)
  from Cons.prems(5) pb have eb: "eb = None" and rb: "scan_frames cv self f n' cb' fs b1 = (None, b')"
    by (auto split: option.splits)
  have "scene_changes a1 = scene_changes b1" "prev_frame a1 = prev_frame b1"
       "frame_count a1 = frame_count b1"
    using process_frame_fields [OF pa] process_frame_fields [OF pb]
      accept_boundary_cong [OF Cons.prems(1-3)] Cons.prems(3) by simp_all
  from Cons.IH [OF this ra rb] show ?case .
qed

lemma scan_frames_count:
  "scan_frames cv self f n cb fs st = (e, st') \<Longrightarrow> e = None \<Longrightarrow>
   frame_count st' = frame_count st + length fs
   \<and> prev_frame st' = (if fs = [] then prev_frame st else Some (last fs))"
proof (induction fs arbitrary: st)
  case Nil
  then show ?case by simp
next
  case (Cons fr fs)
  obtain e1 st1 where p: "process_frame cv self f n cb st fr = (e1, st1)"
    by (cases "process_frame cv self f n cb st fr")
  with Cons.prems have r: "scan_frames cv self f n cb fs st1 = (e, st')"
    by (auto split: option.splits)
  from Cons.IH [OF r Cons.prems(2)] process_frame_fields [OF p] show ?case by simp
qed

lemma accept_boundary_cases:
  "accept_boundary cv self f st fr = scene_changes st \<or>
   accept_boundary cv self f st fr = scene_changes st @ [real (frame_count st) / f]"
  by (simp add: accept_boundary_def Let_def split: option.splits)

lemma scan_frames_hd:
  "scan_frames cv self f n cb fs st = (e, st') \<Longrightarrow> scene_changes st \<noteq> [] \<Longrightarrow>
   scene_changes st' \<noteq> [] \<and> hd (scene_changes st') = hd (scene_changes st)"
proof (induction fs arbitrary: st)
  case Nil
  then show ?case by simp
next
  case (Cons fr fs)
  obtain e1 st1 where p: "process_frame cv self f n cb st fr = (e1, st1)"
    by (cases "process_frame cv self f n cb st fr")
  have s1: "scene_changes st1 \<noteq> [] \<and> hd (scene_changes st1) = hd (scene_changes st)"
    using process_frame_fields [OF p] accept_boundary_cases [of cv self f st fr] Cons.prems(2)
    by auto
  show ?case
  proof (cases e1)
    case None
    with p Cons.prems have "scan_frames cv self f n cb fs st1 = (e, st')" by simp
    from Cons.IH [OF this] s1 show ?thesis by simp
  next
    case (Some a)
    with p Cons.prems have "st' = st1" by simp
    with s1 show ?thesis by simp
  qed
qed


subsection \<open>Scores of the example frames\<close>

lemma hist256_single:
  "hist256 [v] = map (\<lambda>k. if k = unat v then 1 else 0) [0..<256]"
proof -
  have "real (count_list [v] (of_nat k)) = (if k = unat v then 1 else 0)" if "k < 256" for k
  proof -
    have "unat (of_nat k :: 8 word) = k" using that by (simp add: unat_of_nat)
    then have "(v = of_nat k) = (k = unat v)" by (auto simp: word_unat_eq_iff)
    then show ?thesis by simp
  qed
  then show ?thesis by (simp add: hist256_def)
qed

lemma sum_indicator:
  "sum_list (map (\<lambda>k. if k = a then (1::real) else 0) [0..<n]) = (if a < n then 1 else 0)"
  by (simp add: interv_sum_list_conv_sum_set_nat)

lemma sum_indicator_sq:
  "sum_list (map (\<lambda>k. (if k = a then (1::real) else 0) * (if k = a then 1 else 0)) [0..<n])
     = (if a < n then 1 else 0)"
proof -
  have "(\<lambda>k. (if k = a then (1::real) else 0) * (if k = a then 1 else 0))
      = (\<lambda>k. if k = a then 1 else 0)" by auto
  then show ?thesis by (simp add: sum_indicator)
qed

lemma sum_indicator_prod:
  "a \<noteq> b \<Longrightarrow>
   sum_list (map (\<lambda>(x, y). x * y)
     (zip (map (\<lambda>k. if k = a then (1::real) else 0) [0..<n])
          (map (\<lambda>k. if k = b then (1::real) else 0) [0..<n]))) = 0"
proof -
  assume ab: "a \<noteq> b"
  have "map (\<lambda>(x, y). x * y)
     (zip (map (\<lambda>k. if k = a then (1::real) else 0) [0..<n])
          (map (\<lambda>k. if k = b then (1::real) else 0) [0..<n]))
     = map (\<lambda>k. 0) [0..<n]"
    using ab by (auto simp: zip_map_map zip_same_conv_map)
  then show ?thesis by simp
qed

lemma hist_sums:
  "sum_list (hist256 [0]) = 1" "sum_list (hist256 [255]) = 1"
  "sum_list (map (\<lambda>a. a * a) (hist256 [0])) = 1"
  "sum_list (map (\<lambda>a. a * a) (hist256 [255])) = 1"
  "sum_list (map (\<lambda>(a, b). a * b) (zip (hist256 [0]) (hist256 [255]))) = 0"
  "sum_list (map (\<lambda>(a, b). a * b) (zip (hist256 [255]) (hist256 [0]))) = 0"
proof -
  show "sum_list (hist256 [0]) = 1" "sum_list (hist256 [255]) = 1"
    by (simp_all only: hist256_single sum_indicator) simp_all
  show "sum_list (map (\<lambda>a. a * a) (hist256 [0])) = 1"
    "sum_list (map (\<lambda>a. a * a) (hist256 [255])) = 1"
    by (simp_all only: hist256_single map_map o_def sum_indicator_sq) simp_all
  show "sum_list (map (\<lambda>(a, b). a * b) (zip (hist256 [0]) (hist256 [255]))) = 0"
    "sum_list (map (\<lambda>(a, b). a * b) (zip (hist256 [255]) (hist256 [0]))) = 0"
    by (simp_all only: hist256_single) (simp_all add: sum_indicator_prod)
qed

lemma sqrt_example: "sqrt (65025 / 65536) = 255 / 256"
proof -
  have "sqrt (65025 / 65536) = sqrt ((255 / 256) * (255 / 256))" by simp
  also have "\<dots> = \<bar>255 / 256\<bar>" by (rule real_sqrt_abs2)
  also have "\<dots> = 255 / 256" by simp
  finally show ?thesis .
qed

lemma difference_black_white:
  "calculate_frame_difference opencv black white = 5120 / 51"
  "calculate_frame_difference opencv white black = 5120 / 51"
  by (simp_all add: calculate_frame_difference_def opencv_def luminance_black luminance_white
      correl_def hist_sums length_hist256 dbl_epsilon_def sqrt_example)

section \<open>The acceptance rule\<close>



section \<open>What \<open>detect_scenes\<close> returns\<close>

lemma detect_scenes_scanned:
  assumes "isOpened v" "fps v \<noteq> 0"
    and "scan_frames cv self (fps v) (total_frames v) cb (frames v) (initial_state w) = (None, st)"
  shows "detect_scenes cv self v cb w =
     \<lparr>returned = Inr (scene_pairs (scene_changes st @ [real_of_int (total_frames v) / fps v])),
      detector = self\<lparr>scene_timestamps :=
        scene_pairs (scene_changes st @ [real_of_int (total_frames v) / fps v])\<rparr>,
      frames_read = frame_count st, caller = world st\<rparr>"
  using assms by (simp add: detect_scenes_def Let_def)

lemma detect_scenes_failed:
  assumes "isOpened v" "fps v \<noteq> 0"
    and "scan_frames cv self (fps v) (total_frames v) cb (frames v) (initial_state w) = (Some e, st)"
  shows "detect_scenes cv self v cb w =
     \<lparr>returned = Inl e, detector = self, frames_read = frame_count st, caller = world st\<rparr>"
  using assms by (simp add: detect_scenes_def Let_def)

lemma returned_of_scan:
  assumes "fp \<noteq> 0"
  shows "scan_frames cv self fp n cb fs (initial_state w) = (None, st) \<Longrightarrow>
      returned (detect_scenes cv self \<lparr>isOpened = True, fps = fp, total_frames = n, frames = fs\<rparr>
        cb w) = Inr (scene_pairs (scene_changes st @ [real_of_int n / fp]))"
    and "scan_frames cv self fp n cb fs (initial_state w) = (Some e, st) \<Longrightarrow>
      returned (detect_scenes cv self \<lparr>isOpened = True, fps = fp, total_frames = n, frames = fs\<rparr>
        cb w) = Inl e"
  using assms by (simp_all add: detect_scenes_def Let_def)

lemma scan_frames_completes:
  assumes "cb = None \<or> n \<noteq> 0"
  shows "\<exists>st'. scan_frames cv self f n cb fs st = (None, st')"
  using scan_frames_ok [OF assms, of cv self f fs st]
  by (cases "scan_frames cv self f n cb fs st") simp

lemma returned_Inr_scanned:
  assumes "returned (detect_scenes cv self v cb w) = Inr ivs"
  shows "isOpened v \<and> fps v \<noteq> 0 \<and>
    (\<exists>st. scan_frames cv self (fps v) (total_frames v) cb (frames v) (initial_state w) = (None, st))"
proof -
  obtain e st where s: "scan_frames cv self (fps v) (total_frames v) cb (frames v) (initial_state w) = (e, st)"
    by (cases "scan_frames cv self (fps v) (total_frames v) cb (frames v) (initial_state w)")
  from assms s show ?thesis
    by (cases e) (auto simp: detect_scenes_def Let_def split: if_splits)
qed


lemma scan_two_frames:
  "scan_frames opencv (init 30 2) 1 2 None [black, white] (initial_state ())
     = (None, \<lparr>scene_changes = [0, 1], prev_frame = Some white, frame_count = 2, world = ()\<rparr>)"
  by (simp add: process_frame_def accept_boundary_def initial_state_def init_def
      difference_black_white)



section \<open>The partition of the video\<close>

lemma scene_pairs_nth:
  assumes "i + 1 < length sc"
  shows "scene_pairs sc ! i = (sc ! i, sc ! (i + 1))"
proof -
  from assms have "i < length sc - 1" by arith
  then show ?thesis by (simp add: scene_pairs_def)
qed

lemma length_scene_pairs: "length (scene_pairs sc) = length sc - 1"
  by (simp add: scene_pairs_def)

lemma scene_pairs_partition:
  assumes "sorted_wrt (<) sc" "2 \<le> length sc"
  shows "1 \<le> length (scene_pairs sc)"
    and "\<forall>(s, e) \<in> set (scene_pairs sc). s < e"
    and "\<forall>i. i + 1 < length (scene_pairs sc)
           \<longrightarrow> snd (scene_pairs sc ! i) = fst (scene_pairs sc ! (i + 1))"
    and "fst (hd (scene_pairs sc)) = hd sc"
    and "snd (last (scene_pairs sc)) = last sc"
proof -
  show len: "1 \<le> length (scene_pairs sc)"
    using assms(2) by (simp add: length_scene_pairs)
  show "\<forall>(s, e) \<in> set (scene_pairs sc). s < e"
  proof (clarify)
    fix s e assume "(s, e) \<in> set (scene_pairs sc)"
    then obtain i where i: "i < length (scene_pairs sc)" "scene_pairs sc ! i = (s, e)"
      by (auto simp: in_set_conv_nth)
    then have "i + 1 < length sc" by (simp add: length_scene_pairs)
    with i have "s = sc ! i" "e = sc ! (i + 1)" by (simp_all add: scene_pairs_nth)
    with assms(1) \<open>i + 1 < length sc\<close> show "s < e"
      by (simp add: sorted_wrt_nth_less)
  qed
  show "\<forall>i. i + 1 < length (scene_pairs sc)
           \<longrightarrow> snd (scene_pairs sc ! i) = fst (scene_pairs sc ! (i + 1))"
    by (simp add: length_scene_pairs scene_pairs_nth)
  have "scene_pairs sc \<noteq> []" using len by auto
  moreover have "sc \<noteq> []" using assms(2) by auto
  ultimately show "fst (hd (scene_pairs sc)) = hd sc"
    using assms(2) by (simp add: hd_conv_nth scene_pairs_nth length_scene_pairs)
  show "snd (last (scene_pairs sc)) = last sc"
  proof -
    have "Suc (length sc - Suc (Suc 0)) = length sc - 1" using assms(2) by arith
    moreover have "sc \<noteq> []" using assms(2) by auto
    ultimately show ?thesis
      using \<open>scene_pairs sc \<noteq> []\<close> assms(2)
      by (simp add: last_conv_nth scene_pairs_nth length_scene_pairs)
  qed
qed

lemma scan_frames_increasing:
  assumes "0 < f"
  shows "scan_frames cv self f n cb fs st = (e, st') \<Longrightarrow>
   sorted_wrt (<) (scene_changes st) \<Longrightarrow>
   (frame_count st = 0 \<longrightarrow> prev_frame st = None) \<Longrightarrow>
   (\<forall>x \<in> set (scene_changes st). x < real (frame_count st) / f \<or> (x = 0 \<and> frame_count st = 0)) \<Longrightarrow>
   sorted_wrt (<) (scene_changes st') \<and>
   (\<forall>x \<in> set (scene_changes st'). x < real (frame_count st') / f \<or> (x = 0 \<and> frame_count st' = 0))"
proof (induction fs arbitrary: st)
  case Nil
  then show ?case by simp
next
  case (Cons fr fs)
  obtain e1 st1 where p: "process_frame cv self f n cb st fr = (e1, st1)"
    by (cases "process_frame cv self f n cb st fr")
  note fl = process_frame_fields [OF p]
  have lt: "real (frame_count st) / f < real (frame_count st + 1) / f"
    using assms by (simp add: divide_strict_right_mono)
  have pos: "0 < real (frame_count st + 1) / f" using assms by simp
  have old: "\<forall>x \<in> set (scene_changes st). x < real (frame_count st + 1) / f"
    using Cons.prems(4) lt pos by fastforce
  have s1: "sorted_wrt (<) (scene_changes st1)"
  proof (cases "accept_boundary cv self f st fr = scene_changes st")
    case True
    with fl Cons.prems(2) show ?thesis by simp
  next
    case False
    then have a: "accept_boundary cv self f st fr = scene_changes st @ [real (frame_count st) / f]"
      using accept_boundary_cases [of cv self f st fr] by simp
    from False have "prev_frame st \<noteq> None"
      by (cases "prev_frame st") (auto simp: accept_boundary_def)
    with Cons.prems(3) have "frame_count st \<noteq> 0" by auto
    with Cons.prems(4) have "\<forall>x \<in> set (scene_changes st). x < real (frame_count st) / f"
      by auto
    with Cons.prems(2) a fl show ?thesis by (simp add: sorted_wrt_append)
  qed
  have b1: "\<forall>x \<in> set (scene_changes st1).
      x < real (frame_count st1) / f \<or> (x = 0 \<and> frame_count st1 = 0)"
    using fl old lt accept_boundary_cases [of cv self f st fr] by auto
  show ?case
  proof (cases e1)
    case None
    with p Cons.prems(1) have r: "scan_frames cv self f n cb fs st1 = (e, st')" by simp
    have "frame_count st1 = 0 \<longrightarrow> prev_frame st1 = None" using fl by simp
    from Cons.IH [OF r s1 this b1] show ?thesis .
  next
    case (Some a)
    with p Cons.prems(1) have "st' = st1" by simp
    with s1 b1 show ?thesis by simp
  qed
qed

text \<open>
  C2, as the code has it. When the video opens, \<open>fps > 0\<close>, \<open>total_frames > 0\<close> and the
  capture delivers at most \<open>total_frames\<close> frames, \<open>detect_scenes\<close> returns a list of at
  least one interval, each with \<open>end > start\<close>, each ending where the next one starts, the
  first starting at 0 and the last ending at \<open>total_frames / fps\<close>.
\<close>

theorem partition_when_metadata_covers_frames:
  assumes "isOpened v" "0 < fps v" "0 < total_frames v"
    and "int (length (frames v)) \<le> total_frames v"
  shows "\<exists>ivs. returned (detect_scenes cv self v cb w) = Inr ivs
     \<and> 1 \<le> length ivs
     \<and> (\<forall>(s, e) \<in> set ivs. s < e)
     \<and> (\<forall>i. i + 1 < length ivs \<longrightarrow> snd (ivs ! i) = fst (ivs ! (i + 1)))
     \<and> fst (hd ivs) = 0
     \<and> snd (last ivs) = real_of_int (total_frames v) / fps v"
proof -
  let ?d = "real_of_int (total_frames v) / fps v"
  have "cb = None \<or> total_frames v \<noteq> 0" using assms(3) by simp
  from scan_frames_completes [OF this] obtain st where
    s: "scan_frames cv self (fps v) (total_frames v) cb (frames v) (initial_state w) = (None, st)"
    by blast
  have f0: "fps v \<noteq> 0" using assms(2) by simp
  have r: "returned (detect_scenes cv self v cb w) = Inr (scene_pairs (scene_changes st @ [?d]))"
    using detect_scenes_scanned [OF assms(1) f0 s] by simp
  have hd: "scene_changes st \<noteq> []" "hd (scene_changes st) = 0"
    using scan_frames_hd [OF s] by (simp_all add: initial_state_def)
  have cnt: "frame_count st = length (frames v)"
    using scan_frames_count [OF s] by (simp add: initial_state_def)
  have inc: "sorted_wrt (<) (scene_changes st) \<and>
   (\<forall>x \<in> set (scene_changes st). x < real (frame_count st) / fps v \<or> (x = 0 \<and> frame_count st = 0))"
    by (rule scan_frames_increasing [OF assms(2) s]) (simp_all add: initial_state_def)
  have le: "real (frame_count st) / fps v \<le> ?d"
  proof -
    have "real (length (frames v)) \<le> real_of_int (total_frames v)"
      using assms(4) by linarith
    then show ?thesis using assms(2) cnt by (simp add: divide_right_mono)
  qed
  have dpos: "0 < ?d" using assms(2,3) by simp
  have "\<forall>x \<in> set (scene_changes st). x < ?d"
    using inc le dpos by fastforce
  with inc have sorted: "sorted_wrt (<) (scene_changes st @ [?d])"
    by (simp add: sorted_wrt_append)
  have len: "2 \<le> length (scene_changes st @ [?d])"
    using hd(1) by (cases "scene_changes st") auto
  note P = scene_pairs_partition [OF sorted len]
  have "fst (hd (scene_pairs (scene_changes st @ [?d]))) = 0"
    using P(4) hd by simp
  moreover have "snd (last (scene_pairs (scene_changes st @ [?d]))) = ?d"
    using P(5) by simp
  ultimately show ?thesis using r P(1,2,3) by blast
qed


theorem partition_when_metadata_covers_frames_witness:
  "isOpened \<lparr>isOpened = True, fps = 1, total_frames = 2, frames = [black, white]\<rparr>
   \<and> (0::real) < fps \<lparr>isOpened = True, fps = 1, total_frames = 2, frames = [black, white]\<rparr>
   \<and> 0 < total_frames \<lparr>isOpened = True, fps = 1, total_frames = 2, frames = [black, white]\<rparr>
   \<and> int (length (frames \<lparr>isOpened = True, fps = 1, total_frames = 2,
         frames = [black, white]\<rparr>)) \<le> 2
   \<and> returned (detect_scenes opencv (init 30 2)
          \<lparr>isOpened = True, fps = 1, total_frames = 2, frames = [black, white]\<rparr> None ())
        = Inr [(0, 1), (1, 2)]
   \<and> 1 \<le> length [(0, 1), (1, 2) :: interval]
   \<and> fst (hd [(0, 1), (1, 2) :: interval]) = 0
   \<and> snd (last [(0, 1), (1, 2) :: interval]) = 2"
proof -
  let ?v = "\<lparr>isOpened = True, fps = 1, total_frames = 2, frames = [black, white]\<rparr>"
  have one: "(1::real) \<noteq> 0" by simp
  have r: "returned (detect_scenes opencv (init 30 2) ?v None ()) = Inr [(0, 1), (1, 2)]"
    using returned_of_scan(1) [OF one scan_two_frames]
    by (simp add: scene_pairs_def upt_rec)
  have h: "isOpened ?v" "0 < fps ?v" "0 < total_frames ?v"
    "int (length (frames ?v)) \<le> total_frames ?v"
    by simp_all
  from partition_when_metadata_covers_frames [OF h, of opencv "init 30 2" None "()"]
  obtain ivs where "returned (detect_scenes opencv (init 30 2) ?v None ()) = Inr ivs"
    "1 \<le> length ivs" "fst (hd ivs) = 0"
    "snd (last ivs) = real_of_int (total_frames ?v) / fps ?v"
    by blast
  with r have "1 \<le> length [(0, 1), (1, 2) :: interval]
     \<and> fst (hd [(0, 1), (1, 2) :: interval]) = 0
     \<and> snd (last [(0, 1), (1, 2) :: interval]) = 2"
    by simp
  with h r show ?thesis by simp
qed

lemma scan_three_frames:
  "scan_frames opencv (init 30 2) 1 1 None [black, black, white] (initial_state ())
     = (None, \<lparr>scene_changes = [0, 2], prev_frame = Some white, frame_count = 3, world = ()\<rparr>)"
  by (simp add: process_frame_def accept_boundary_def initial_state_def init_def
      difference_black_white difference_same_histogram)

text \<open>
  C2 as stated fails. The capture delivers three frames while the container reports
  one: the boundary accepted at frame 2 lies after \<open>total_frames / fps\<close>, and the last
  interval runs backwards.
\<close>

theorem partition_counterexample:
  "returned (detect_scenes opencv (init 30 2)
      \<lparr>isOpened = True, fps = 1, total_frames = 1, frames = [black, black, white]\<rparr> None ())
     = Inr [(0, 2), (2, 1)]"
proof -
  let ?v = "\<lparr>isOpened = True, fps = 1, total_frames = 1, frames = [black, black, white]\<rparr>"
  have s: "scan_frames opencv (init 30 2) (fps ?v) (total_frames ?v) None (frames ?v)
      (initial_state ())
    = (None, \<lparr>scene_changes = [0, 2], prev_frame = Some white, frame_count = 3, world = ()\<rparr>)"
    using scan_three_frames by simp
  show ?thesis
    using detect_scenes_scanned [of ?v, OF _ _ s] by (simp add: scene_pairs_def upt_rec)
qed

section \<open>Degenerate metadata and configuration\<close>

lemma scan_frames_count_mono:
  "scan_frames cv self f n cb fs st = (e, st') \<Longrightarrow> frame_count st \<le> frame_count st'"
proof (induction fs arbitrary: st)
  case Nil
  then show ?case by simp
next
  case (Cons fr fs)
  obtain e1 st1 where p: "process_frame cv self f n cb st fr = (e1, st1)"
    by (cases "process_frame cv self f n cb st fr")
  note fl = process_frame_fields [OF p]
  show ?case
  proof (cases e1)
    case None
    with p Cons.prems have "scan_frames cv self f n cb fs st1 = (e, st')" by simp
    from Cons.IH [OF this] fl show ?thesis by simp
  next
    case (Some a)
    with p Cons.prems have "st' = st1" by simp
    with fl show ?thesis by simp
  qed
qed

lemma scan_frames_reads_first:
  assumes "scan_frames cv self f n cb fs st = (e, st')" "fs \<noteq> []"
  shows "frame_count st < frame_count st'"
proof -
  obtain fr rest where fs: "fs = fr # rest" using assms(2) by (cases fs) auto
  obtain e1 st1 where p: "process_frame cv self f n cb st fr = (e1, st1)"
    by (cases "process_frame cv self f n cb st fr")
  note fl = process_frame_fields [OF p]
  show ?thesis
  proof (cases e1)
    case None
    with p assms(1) fs have "scan_frames cv self f n cb rest st1 = (e, st')" by simp
    from scan_frames_count_mono [OF this] fl show ?thesis by simp
  next
    case (Some a)
    with p assms(1) fs have "st' = st1" by simp
    with fl show ?thesis by simp
  qed
qed

lemma frames_read_scanned:
  assumes "isOpened v" "fps v \<noteq> 0"
    and "scan_frames cv self (fps v) (total_frames v) cb (frames v) (initial_state w) = (e, st)"
  shows "frames_read (detect_scenes cv self v cb w) = frame_count st"
proof (cases e)
  case None
  with assms detect_scenes_scanned [of v cv self cb w st] show ?thesis by simp
next
  case (Some a)
  with assms detect_scenes_failed [of v cv self cb w a st] show ?thesis by simp
qed

text \<open>
  C7, as the code has it. With \<open>fps = 0\<close> the call fails before any frame is read, and
  the failure is the \<open>ZeroDivisionError\<close> of \<open>total_frames / fps\<close> itself. A frame count
  of 0 with a non-zero \<open>fps\<close> is not rejected before the scan: frames are read.
\<close>

theorem zero_fps_fails_before_scan:
  "(isOpened v \<and> fps v = 0 \<longrightarrow>
      returned (detect_scenes cv self v cb w) = Inl ZeroDivisionError
      \<and> frames_read (detect_scenes cv self v cb w) = 0)
   \<and> (isOpened v \<and> fps v \<noteq> 0 \<and> total_frames v = 0 \<and> frames v \<noteq> [] \<longrightarrow>
      0 < frames_read (detect_scenes cv self v cb w))"
proof -
  have "0 < frames_read (detect_scenes cv self v cb w)"
    if h: "isOpened v" "fps v \<noteq> 0" "frames v \<noteq> []"
  proof -
    obtain e st where
      s: "scan_frames cv self (fps v) (total_frames v) cb (frames v) (initial_state w) = (e, st)"
      by (cases "scan_frames cv self (fps v) (total_frames v) cb (frames v) (initial_state w)")
    from scan_frames_reads_first [OF s h(3)] frames_read_scanned [OF h(1,2) s]
    show ?thesis by simp
  qed
  then have scanned: "isOpened v \<and> fps v \<noteq> 0 \<and> total_frames v = 0 \<and> frames v \<noteq> [] \<longrightarrow>
      0 < frames_read (detect_scenes cv self v cb w)"
    by blast
  have failed: "isOpened v \<and> fps v = 0 \<longrightarrow>
      returned (detect_scenes cv self v cb w) = Inl ZeroDivisionError
      \<and> frames_read (detect_scenes cv self v cb w) = 0"
    by (simp add: detect_scenes_def)
  from failed scanned show ?thesis by (rule conjI)
qed

theorem zero_fps_fails_before_scan_witness:
  "returned (detect_scenes opencv (init 30 2)
      \<lparr>isOpened = True, fps = 0, total_frames = 10, frames = [black, white]\<rparr> None ())
     = Inl ZeroDivisionError
   \<and> frames_read (detect_scenes opencv (init 30 2)
      \<lparr>isOpened = True, fps = 0, total_frames = 10, frames = [black, white]\<rparr> None ()) = 0
   \<and> 0 < frames_read (detect_scenes opencv (init 30 2)
      \<lparr>isOpened = True, fps = 30, total_frames = 0, frames = [black]\<rparr> None ())"
  using zero_fps_fails_before_scan
      [of "\<lparr>isOpened = True, fps = 0, total_frames = 10, frames = [black, white]\<rparr>"
          opencv "init 30 2" None "()"]
    zero_fps_fails_before_scan
      [of "\<lparr>isOpened = True, fps = 30, total_frames = 0, frames = [black]\<rparr>"
          opencv "init 30 2" None "()"]
  by simp

text \<open>
  C7 as stated fails. The container reports no frames and 30 frames per second: the
  call does not fail, it reads the frame and returns one empty interval.
\<close>

theorem zero_frame_count_counterexample:
  "returned (detect_scenes opencv (init 30 2)
      \<lparr>isOpened = True, fps = 30, total_frames = 0, frames = [black]\<rparr> None ())
     = Inr [(0, 0)]
   \<and> frames_read (detect_scenes opencv (init 30 2)
      \<lparr>isOpened = True, fps = 30, total_frames = 0, frames = [black]\<rparr> None ()) = 1"
  by (simp add: detect_scenes_def process_frame_def accept_boundary_def initial_state_def
      scene_pairs_def upt_rec Let_def)

text \<open>
  C8, as the code has it. No configuration is rejected: the constructor stores any
  threshold and any minimum scene length, and \<open>detect_scenes\<close> scans every frame under
  them. Only a video that does not open, or \<open>fps = 0\<close>, stops the call before the scan.
\<close>

theorem configuration_not_validated:
  assumes "isOpened v" "fps v \<noteq> 0" "cb = None \<or> total_frames v \<noteq> 0"
  shows "threshold (init th msl) = th \<and> min_scene_length (init th msl) = msl
     \<and> (\<exists>ivs. returned (detect_scenes cv (init th msl) v cb w) = Inr ivs)
     \<and> frames_read (detect_scenes cv (init th msl) v cb w) = length (frames v)"
proof -
  from scan_frames_completes [OF assms(3)] obtain st where
    s: "scan_frames cv (init th msl) (fps v) (total_frames v) cb (frames v) (initial_state w)
          = (None, st)"
    by blast
  have "frame_count st = length (frames v)"
    using scan_frames_count [OF s] by (simp add: initial_state_def)
  with detect_scenes_scanned [OF assms(1,2) s] show ?thesis by (simp add: init_def)
qed

lemma scan_two_black_frames:
  "scan_frames opencv (init (- 5) (- 1)) 1 2 None [black, black] (initial_state ())
     = (None, \<lparr>scene_changes = [0, 1], prev_frame = Some black, frame_count = 2, world = ()\<rparr>)"
  by (simp add: process_frame_def accept_boundary_def initial_state_def init_def
      difference_same_histogram)

theorem configuration_not_validated_witness:
  "isOpened \<lparr>isOpened = True, fps = 1, total_frames = 2, frames = [black, black]\<rparr>
   \<and> fps \<lparr>isOpened = True, fps = 1, total_frames = 2, frames = [black, black]\<rparr> \<noteq> (0::real)
   \<and> threshold (init (- 5) (- 1)) = - 5 \<and> min_scene_length (init (- 5) (- 1)) = - 1
   \<and> (\<exists>ivs. returned (detect_scenes opencv (init (- 5) (- 1))
          \<lparr>isOpened = True, fps = 1, total_frames = 2, frames = [black, black]\<rparr> None ())
        = Inr ivs)
   \<and> frames_read (detect_scenes opencv (init (- 5) (- 1))
          \<lparr>isOpened = True, fps = 1, total_frames = 2, frames = [black, black]\<rparr> None ()) = 2"
  using configuration_not_validated
    [of "\<lparr>isOpened = True, fps = 1, total_frames = 2, frames = [black, black]\<rparr>"
        None "- 5" "- 1" opencv "()"]
  by simp

text \<open>
  C8 as stated fails. A negative threshold and a negative minimum scene length are
  accepted: both frames are processed, and the second one, identical to the first, opens
  a new scene.
\<close>

theorem invalid_configuration_counterexample:
  "threshold (init (- 5) (- 1)) \<le> 0 \<and> min_scene_length (init (- 5) (- 1)) < 0
   \<and> returned (detect_scenes opencv (init (- 5) (- 1))
      \<lparr>isOpened = True, fps = 1, total_frames = 2, frames = [black, black]\<rparr> None ())
     = Inr [(0, 1), (1, 2)]
   \<and> frames_read (detect_scenes opencv (init (- 5) (- 1))
      \<lparr>isOpened = True, fps = 1, total_frames = 2, frames = [black, black]\<rparr> None ()) = 2"
proof -
  let ?v = "\<lparr>isOpened = True, fps = 1, total_frames = 2, frames = [black, black]\<rparr>"
  have s: "scan_frames opencv (init (- 5) (- 1)) (fps ?v) (total_frames ?v) None (frames ?v)
      (initial_state ())
    = (None, \<lparr>scene_changes = [0, 1], prev_frame = Some black, frame_count = 2, world = ()\<rparr>)"
    using scan_two_black_frames by simp
  show ?thesis
    using detect_scenes_scanned [of ?v, OF _ _ s]
    by (simp add: scene_pairs_def upt_rec init_def)
qed

section \<open>Clips and the report\<close>







section \<open>The progress callback\<close>


lemma process_frame_progress:
  "process_frame cv self f 0 (Some cb) st fr = (e, st') \<Longrightarrow>
   e = (if (frame_count st + 1) mod 30 = 0 then Some ZeroDivisionError else None)"
  unfolding process_frame_def Let_def
  by (simp only: loop_state.simps option.case split: if_splits) (simp_all only: prod.inject simp_thms if_True if_False, auto)

lemma progress_raises:
  "scan_frames cv self f 0 (Some cb) fs st = (e, st') \<Longrightarrow>
   \<exists>j. frame_count st < j \<and> j \<le> frame_count st + length fs \<and> j mod 30 = 0 \<Longrightarrow>
   e = Some ZeroDivisionError"
proof (induction fs arbitrary: st)
  case Nil
  from Nil.prems(2) obtain j where "frame_count st < j" "j \<le> frame_count st + length ([]::'a list)"
    by (elim exE conjE)
  then have False by simp
  then show ?case ..
next
  case (Cons fr fs)
  obtain e1 st1 where p: "process_frame cv self f 0 (Some cb) st fr = (e1, st1)"
    by (rule prod.exhaust)
  note fl = process_frame_fields [OF p]
  note e1 = process_frame_progress [OF p]
  show ?case
  proof (cases "(frame_count st + 1) mod 30 = 0")
    case True
    with e1 have "e1 = Some ZeroDivisionError" by (simp only: simp_thms if_True)
    with p Cons.prems(1) show ?thesis by simp
  next
    case False
    with e1 have "e1 = None" by (simp only: simp_thms if_False)
    with p Cons.prems(1) have r: "scan_frames cv self f 0 (Some cb) fs st1 = (e, st')"
      by simp
    from Cons.prems(2) obtain j where
      j: "frame_count st < j" "j \<le> frame_count st + length (fr # fs)" and j0: "j mod 30 = 0"
      by (elim exE conjE)
    have ne: "j \<noteq> frame_count st + 1"
    proof
      assume "j = frame_count st + 1"
      with j0 have "(frame_count st + 1) mod 30 = 0" by (simp only:)
      with False show False ..
    qed
    have c1: "frame_count st1 = frame_count st + 1" using fl by (elim conjE)
    have l: "length (fr # fs) = length fs + 1" by simp
    from j ne have "frame_count st1 < j" "j \<le> frame_count st1 + length fs"
      unfolding c1 l by arith+
    with j0 have "frame_count st1 < j \<and> j \<le> frame_count st1 + length fs \<and> j mod 30 = 0"
      by (intro conjI)
    then have "\<exists>j. frame_count st1 < j \<and> j \<le> frame_count st1 + length fs \<and> j mod 30 = 0"
      by (rule exI)
    with r show ?thesis by (rule Cons.IH)
  qed
qed


lemma scan_unchanging_frames:
  "scan_frames cv self f n None fs st = (e, st') \<Longrightarrow>
   calculate_frame_difference cv fr fr \<le> threshold self \<Longrightarrow>
   set fs \<subseteq> {fr} \<Longrightarrow> prev_frame st = None \<or> prev_frame st = Some fr \<Longrightarrow>
   scene_changes st' = scene_changes st"
proof (induction fs arbitrary: st)
  case Nil
  then show ?case by simp
next
  case (Cons a fs)
  then have a: "a = fr" by simp
  have p: "process_frame cv self f n None st fr =
      (None, st\<lparr>scene_changes := scene_changes st, prev_frame := Some fr,
                frame_count := frame_count st + 1\<rparr>)"
    using Cons.prems(2,4) by (auto simp: process_frame_def accept_boundary_def Let_def)
  with Cons.prems(1) a have
    r: "scan_frames cv self f n None fs (st\<lparr>scene_changes := scene_changes st,
          prev_frame := Some fr, frame_count := frame_count st + 1\<rparr>) = (e, st')"
    by simp
  from Cons.IH [OF r Cons.prems(2)] Cons.prems(3) show ?case by simp
qed

text \<open>
  Apart from that division, the callback has no influence: whenever the call with a
  callback returns, the call without one returns the same list and leaves the same
  detector.
\<close>

lemma progress_noninterference:
  assumes "returned (detect_scenes cv self v (Some cb) w) = Inr ivs"
  shows "returned (detect_scenes cv self v None w') = Inr ivs
    \<and> detector (detect_scenes cv self v None w') = detector (detect_scenes cv self v (Some cb) w)"
proof -
  from returned_Inr_scanned [OF assms] obtain st where
    o: "isOpened v" "fps v \<noteq> 0" and
    s: "scan_frames cv self (fps v) (total_frames v) (Some cb) (frames v) (initial_state w)
          = (None, st)"
    by blast
  obtain st2 where
    s2: "scan_frames cv self (fps v) (total_frames v) None (frames v) (initial_state w')
          = (None, st2)"
    using scan_frames_completes [of None] by blast
  have "scene_changes st = scene_changes st2"
    using scan_frames_fields [OF _ _ _ s s2] by (simp add: initial_state_def)
  with detect_scenes_scanned [OF o s] detect_scenes_scanned [OF o s2] assms
  show ?thesis by simp
qed

text \<open>
  C5 fails on the code. A container that reports no frames, at 30 frames per second,
  delivering 30 identical frames: with a progress callback the call raises
  \<open>ZeroDivisionError\<close> when the percentage is computed after the 30th frame; without
  one the same call returns a list.
\<close>

theorem progress_division_by_zero:
  "returned (detect_scenes opencv (init 30 2)
      \<lparr>isOpened = True, fps = 30, total_frames = 0, frames = replicate 30 black\<rparr>
      (Some (\<lambda>p log. p # log)) ([]::real list)) = Inl ZeroDivisionError
   \<and> returned (detect_scenes opencv (init 30 2)
      \<lparr>isOpened = True, fps = 30, total_frames = 0, frames = replicate 30 black\<rparr>
      None ([]::real list)) = Inr [(0, 0)]"
proof -
  let ?cb = "\<lambda>(p::real) log. p # log"
  let ?init = "initial_state ([]::real list) :: (pixel list, real list) loop_state"
  have fp: "(30::real) \<noteq> 0" by simp
  obtain e st where
    s: "scan_frames opencv (init 30 2) 30 0 (Some ?cb) (replicate 30 black) ?init = (e, st)"
    by (rule prod.exhaust)
  have "\<exists>j. frame_count ?init < j \<and> j \<le> frame_count ?init + length (replicate 30 black)
      \<and> j mod 30 = 0"
    by (rule exI [of _ 30]) (simp add: initial_state_def)
  with s have e: "e = Some ZeroDivisionError" by (rule progress_raises)
  have 1: "returned (detect_scenes opencv (init 30 2)
      \<lparr>isOpened = True, fps = 30, total_frames = 0, frames = replicate 30 black\<rparr>
      (Some ?cb) ([]::real list)) = Inl ZeroDivisionError"
    by (rule returned_of_scan(2) [OF fp]) (use s e in blast)
  obtain st2 where
    s2: "scan_frames opencv (init 30 2) 30 0 None (replicate 30 black) ?init = (None, st2)"
    using scan_frames_completes [of None] by blast
  have "scene_changes st2 = scene_changes ?init"
    by (rule scan_unchanging_frames [OF s2, of black])
       (simp_all add: difference_same_histogram init_def initial_state_def)
  then have sc: "scene_changes st2 = [0]" by (simp add: initial_state_def)
  have sp: "scene_pairs ([0] @ [real_of_int 0 / 30]) = [(0, 0)]"
    by (simp add: scene_pairs_def upt_rec)
  have 2: "returned (detect_scenes opencv (init 30 2)
      \<lparr>isOpened = True, fps = 30, total_frames = 0, frames = replicate 30 black\<rparr>
      None ([]::real list)) = Inr [(0, 0)]"
    using returned_of_scan(1) [OF fp s2] by (simp only: sc sp)
  from 1 2 show ?thesis by (rule conjI)
qed

section \<open>Monotonicity in the configuration\<close>

lemma accept_boundary_eq:
  "accept_boundary cv self f st fr =
     (if (\<exists>p. prev_frame st = Some p \<and> calculate_frame_difference cv p fr > threshold self)
         \<and> (length (scene_changes st) = 1
            \<or> real (frame_count st) / f - last (scene_changes st) \<ge> min_scene_length self)
      then scene_changes st @ [real (frame_count st) / f]
      else scene_changes st)"
  by (cases "prev_frame st") (simp_all add: accept_boundary_def Let_def)

lemma accept_step_compare:
  fixes x :: real
  assumes sa1: "sa1 = (if ca \<and> (length sa = 1 \<or> x - last sa \<ge> ma) then sa @ [x] else sa)"
    and sb1: "sb1 = (if cb \<and> (length sb = 1 \<or> x - last sb \<ge> mb) then sb @ [x] else sb)"
    and c: "cb \<longrightarrow> ca" and m: "ma \<le> mb"
    and ne: "sa \<noteq> []" "sb \<noteq> []"
    and inv: "length sa \<noteq> 1 \<longrightarrow> last sa \<le> x"
  shows "length sb1 + length sa + lag sa1 sb1 \<le> length sa1 + length sb + lag sa sb"
proof -
  have la: "length sa \<ge> 1" and lb: "length sb \<ge> 1"
    using ne by (cases sa, auto) (cases sb, auto)
  consider (none) "sa1 = sa" "sb1 = sb"
    | (both) "sa1 = sa @ [x]" "sb1 = sb @ [x]"
    | (onlyA) "sa1 = sa @ [x]" "sb1 = sb"
    | (onlyB) "sa1 = sa" "sb1 = sb @ [x]"
        "ca" "length sa \<noteq> 1" "x - last sa < ma" "length sb = 1 \<or> x - last sb \<ge> mb"
    using sa1 sb1 c by (auto split: if_splits)
  then show ?thesis
  proof cases
    case none
    then show ?thesis by simp
  next
    case both
    then show ?thesis using ne by (simp add: lag_def)
  next
    case onlyA
    then show ?thesis by (simp add: lag_def)
  next
    case onlyB
    have "lag sa sb = 1" using onlyB m by (auto simp: lag_def)
    moreover have "lag sa1 sb1 = 0" using onlyB inv ne by (simp add: lag_def)
    ultimately show ?thesis using onlyB by simp
  qed
qed

lemma scan_frames_compare:
  assumes f: "0 < f" and th: "threshold A \<le> threshold B"
    and msl: "min_scene_length A \<le> min_scene_length B"
  shows "scan_frames cv A f n cb fs a = (None, a') \<Longrightarrow>
     scan_frames cv B f n' cb' fs b = (None, b') \<Longrightarrow>
     prev_frame a = prev_frame b \<Longrightarrow> frame_count a = frame_count b \<Longrightarrow>
     scene_changes a \<noteq> [] \<Longrightarrow> scene_changes b \<noteq> [] \<Longrightarrow>
     (length (scene_changes a) \<noteq> 1 \<longrightarrow> last (scene_changes a) \<le> real (frame_count a) / f) \<Longrightarrow>
     length (scene_changes b') + length (scene_changes a)
       \<le> length (scene_changes a') + length (scene_changes b)
          + lag (scene_changes a) (scene_changes b)"
proof (induction fs arbitrary: a b)
  case Nil
  then show ?case by simp
next
  case (Cons fr fs)
  obtain ea a1 where pa: "process_frame cv A f n cb a fr = (ea, a1)"
    by (rule prod.exhaust)
  obtain eb b1 where pb: "process_frame cv B f n' cb' b fr = (eb, b1)"
    by (rule prod.exhaust)
  from Cons.prems(1) pa have ra: "scan_frames cv A f n cb fs a1 = (None, a')"
    by (auto split: option.splits)
  from Cons.prems(2) pb have rb: "scan_frames cv B f n' cb' fs b1 = (None, b')"
    by (auto split: option.splits)
  note fa = process_frame_fields [OF pa]
  note fb = process_frame_fields [OF pb]
  let ?x = "real (frame_count a) / f"
  let ?ca = "\<exists>p. prev_frame a = Some p \<and> calculate_frame_difference cv p fr > threshold A"
  let ?cb = "\<exists>p. prev_frame b = Some p \<and> calculate_frame_difference cv p fr > threshold B"
  have sa1: "scene_changes a1 =
      (if ?ca \<and> (length (scene_changes a) = 1 \<or> ?x - last (scene_changes a) \<ge> min_scene_length A)
       then scene_changes a @ [?x] else scene_changes a)"
    using fa by (simp add: accept_boundary_eq)
  have sb1: "scene_changes b1 =
      (if ?cb \<and> (length (scene_changes b) = 1 \<or> ?x - last (scene_changes b) \<ge> min_scene_length B)
       then scene_changes b @ [?x] else scene_changes b)"
    using fb Cons.prems(4) by (simp add: accept_boundary_eq)
  have c: "?cb \<longrightarrow> ?ca" using th Cons.prems(3) by auto
  have step: "length (scene_changes b1) + length (scene_changes a) + lag (scene_changes a1) (scene_changes b1)
      \<le> length (scene_changes a1) + length (scene_changes b) + lag (scene_changes a) (scene_changes b)"
    by (rule accept_step_compare [OF sa1 sb1 c msl Cons.prems(5,6,7)])
  have x1: "?x \<le> real (frame_count a1) / f"
    using fa f by (simp add: divide_right_mono)
  have ne1: "scene_changes a1 \<noteq> []" "scene_changes b1 \<noteq> []"
    using sa1 sb1 Cons.prems(5,6) by (auto split: if_splits)
  have inv1: "length (scene_changes a1) \<noteq> 1 \<longrightarrow> last (scene_changes a1) \<le> real (frame_count a1) / f"
  proof (cases "scene_changes a1 = scene_changes a")
    case True
    with Cons.prems(7) x1 show ?thesis by auto
  next
    case False
    with sa1 have "scene_changes a1 = scene_changes a @ [?x]" by (auto split: if_splits)
    with x1 show ?thesis by simp
  qed
  have "prev_frame a1 = prev_frame b1" "frame_count a1 = frame_count b1"
    using fa fb Cons.prems(4) by simp_all
  from Cons.IH [OF ra rb this ne1 inv1] step show ?case by linarith
qed

text \<open>
  C4. Monotonicity in the configuration. For one video with \<open>fps > 0\<close>, a detector whose
  threshold and minimum scene length are both at least those of another one returns at
  most as many intervals, hence at most as many boundaries. Raising the threshold alone,
  or the minimum scene length alone, are the two special cases.
\<close>

theorem boundaries_antitone_in_configuration:
  assumes "0 < fps v"
    and "threshold A \<le> threshold B" "min_scene_length A \<le> min_scene_length B"
    and "returned (detect_scenes cv A v cb w) = Inr ivsA"
    and "returned (detect_scenes cv B v cb' w') = Inr ivsB"
  shows "length ivsB \<le> length ivsA"
proof -
  let ?d = "real_of_int (total_frames v) / fps v"
  from returned_Inr_scanned [OF assms(4)] obtain a where
    o: "isOpened v" "fps v \<noteq> 0" and
    sa: "scan_frames cv A (fps v) (total_frames v) cb (frames v) (initial_state w) = (None, a)"
    by blast
  from returned_Inr_scanned [OF assms(5)] obtain b where
    sb: "scan_frames cv B (fps v) (total_frames v) cb' (frames v) (initial_state w') = (None, b)"
    by blast
  have A: "ivsA = scene_pairs (scene_changes a @ [?d])"
    using detect_scenes_scanned [OF o sa] assms(4) by simp
  have B: "ivsB = scene_pairs (scene_changes b @ [?d])"
    using detect_scenes_scanned [OF o sb] assms(5) by simp
  have "length (scene_changes b) + length [0::real]
       \<le> length (scene_changes a) + length [0::real] + lag [0] [0]"
    using scan_frames_compare [OF assms(1,2,3) sa sb] by (simp add: initial_state_def)
  then have "length (scene_changes b) \<le> length (scene_changes a)"
    by (simp add: lag_def)
  with A B show ?thesis by (simp add: length_scene_pairs)
qed


lemma scan_two_frames_insensitive:
  "scan_frames opencv (init 200 3) 1 2 None [black, white] (initial_state ())
     = (None, \<lparr>scene_changes = [0], prev_frame = Some white, frame_count = 2, world = ()\<rparr>)"
  by (simp add: process_frame_def accept_boundary_def initial_state_def init_def
      difference_black_white)

theorem boundaries_antitone_in_configuration_witness:
  "(0::real) < fps \<lparr>isOpened = True, fps = 1, total_frames = 2, frames = [black, white]\<rparr>
   \<and> threshold (init 30 2) \<le> threshold (init 200 3)
   \<and> min_scene_length (init 30 2) \<le> min_scene_length (init 200 3)
   \<and> returned (detect_scenes opencv (init 30 2)
        \<lparr>isOpened = True, fps = 1, total_frames = 2, frames = [black, white]\<rparr> None ())
       = Inr [(0, 1), (1, 2)]
   \<and> returned (detect_scenes opencv (init 200 3)
        \<lparr>isOpened = True, fps = 1, total_frames = 2, frames = [black, white]\<rparr> None ())
       = Inr [(0, 2)]
   \<and> length [(0, 2) :: interval] \<le> length [(0, 1), (1, 2) :: interval]"
proof -
  let ?v = "\<lparr>isOpened = True, fps = 1, total_frames = 2, frames = [black, white]\<rparr>"
  have one: "(1::real) \<noteq> 0" by simp
  have rA: "returned (detect_scenes opencv (init 30 2) ?v None ()) = Inr [(0, 1), (1, 2)]"
    using returned_of_scan(1) [OF one scan_two_frames]
    by (simp add: scene_pairs_def upt_rec)
  have rB: "returned (detect_scenes opencv (init 200 3) ?v None ()) = Inr [(0, 2)]"
    using returned_of_scan(1) [OF one scan_two_frames_insensitive]
    by (simp add: scene_pairs_def upt_rec)
  have h: "(0::real) < fps ?v" "threshold (init 30 2) \<le> threshold (init 200 3)"
    "min_scene_length (init 30 2) \<le> min_scene_length (init 200 3)"
    by (simp_all add: init_def)
  from boundaries_antitone_in_configuration [OF h rA rB] h rA rB show ?thesis by simp
qed

end
